theory Spec2Isabelle
  imports Complex_Main
begin

section \<open>The picolog data module: readings, samples and the bounded data store\<close>

text \<open>
  A shallow embedding of \<^verbatim>\<open>src/picolog/data.py\<close>. Objects are records, the mutable
  \<^verbatim>\<open>DataStore\<close> is passed explicitly and returned updated, every \<^verbatim>\<open>raise\<close> is a value
  of the type \<open>error\<close>, and a call that does not return is the value \<open>None\<close> of an option.

  The module is written for Python 2 (\<^verbatim>\<open>from __future__ import print_function\<close>, the
  note "In Python 3 this will probably break" in \<^verbatim>\<open>json_repr\<close>, a \<^verbatim>\<open>map\<close> called for its
  side effects). Two of its lines mean something else under Python 3: the comparison of a
  length with \<^verbatim>\<open>None\<close>, and the \<^verbatim>\<open>map\<close> over the conversion callbacks, which Python 3 never
  runs because nothing consumes the iterator. The interpreter is therefore a parameter
  \<open>pyver\<close> of the two functions concerned, so that each result says which reading of the
  source it holds for.
\<close>

subsection \<open>Errors and interpreter\<close>

datatype pyver = Py2 | Py3

text \<open>
  The source raises a plain \<^verbatim>\<open>Exception\<close> with a message, or lets a built-in exception
  escape. The constructors carry the names the specification gives them:
  \<open>LengthMismatch\<close> is "Specified channels is not the same length as specified samples",
  \<open>InvalidChannel\<close> is \<^verbatim>\<open>ValueError("Invalid channel")\<close>,
  \<open>NonMonotonicTimeError\<close> is "A new reading time is earlier than an existing reading time",
  \<open>PayloadTooLargeError\<close> is "Data is longer than maximum bytes and trim is not enabled",
  \<open>IndexError\<close> is what \<^verbatim>\<open>del(self.readings[0])\<close> raises on an empty list and
  \<open>TypeError\<close> what Python 3 raises when an \<^verbatim>\<open>int\<close> is ordered against \<^verbatim>\<open>None\<close>.
\<close>

datatype error =
    LengthMismatch
  | InvalidChannel
  | NonMonotonicTimeError
  | PayloadTooLargeError
  | IndexError
  | TypeError

subsection \<open>Sample and Reading\<close>

text \<open>
  A sample value is a Python float after \<^verbatim>\<open>float(value)\<close>. The module never computes with
  it: it copies it and compares it with zero. It is modelled as a real number.
\<close>

record sample =
  channel :: int
  val :: real

record reading =
  reading_time :: int
  channels :: "int list"
  samples :: "sample list"

text \<open>The plain mappings of \<^verbatim>\<open>dict_repr\<close>: their keys are fixed, so they are records.\<close>

record sample_dict =
  d_channel :: int
  d_value :: real

record reading_dict =
  d_reading_time :: int
  d_channels :: "int list"
  d_samples :: "sample_dict list"

text \<open>
  \<^verbatim>\<open>Sample.__init__\<close>: the channel must pass \<^verbatim>\<open>Channel.is_valid\<close>, which lives in
  \<^verbatim>\<open>picolog.constants\<close>, outside the module; it is the parameter \<open>is_valid\<close>.
\<close>

definition Sample_init :: "(int \<Rightarrow> bool) \<Rightarrow> int \<Rightarrow> real \<Rightarrow> error + sample" where
  "Sample_init is_valid c v =
     (if is_valid c then Inr \<lparr>channel = c, val = v\<rparr> else Inl InvalidChannel)"

text \<open>
  \<^verbatim>\<open>Reading.__init__\<close> compares the two lengths with \<^verbatim>\<open>is not\<close>, the identity of the two
  integer objects. CPython shares the integer objects from -5 to 256 only, so two equal
  lengths above 256 are distinct objects and the constructor raises for them too.
\<close>

definition len_is_not :: "nat \<Rightarrow> nat \<Rightarrow> bool" where
  "len_is_not m n = (m \<noteq> n \<or> 256 < m)"

text \<open>The loop over \<^verbatim>\<open>zip(channels, samples)\<close> that builds the samples, first failure first.\<close>

fun build_samples :: "(int \<Rightarrow> bool) \<Rightarrow> int list \<Rightarrow> real list \<Rightarrow> error + sample list" where
  "build_samples is_valid (c # cs) (v # vs) =
     (case Sample_init is_valid c v of
        Inl e \<Rightarrow> Inl e
      | Inr s \<Rightarrow> (case build_samples is_valid cs vs of
                    Inl e \<Rightarrow> Inl e
                  | Inr ss \<Rightarrow> Inr (s # ss)))"
| "build_samples is_valid cs vs = Inr []"

definition Reading_init :: "(int \<Rightarrow> bool) \<Rightarrow> int \<Rightarrow> int list \<Rightarrow> real list \<Rightarrow> error + reading" where
  "Reading_init is_valid t cs vs =
     (if len_is_not (length cs) (length vs) then Inl LengthMismatch
      else (case build_samples is_valid cs vs of
              Inl e \<Rightarrow> Inl e
            | Inr ss \<Rightarrow> Inr \<lparr>reading_time = t, channels = cs, samples = ss\<rparr>))"

definition sample_dict_repr :: "sample \<Rightarrow> sample_dict" where
  "sample_dict_repr s = \<lparr>d_channel = channel s, d_value = val s\<rparr>"

definition dict_repr :: "reading \<Rightarrow> reading_dict" where
  "dict_repr r =
     \<lparr>d_reading_time = reading_time r, d_channels = channels r,
      d_samples = map sample_dict_repr (samples r)\<rparr>"

text \<open>
  \<^verbatim>\<open>apply_function\<close>: the function gets the list of the current values; the loop over
  \<^verbatim>\<open>zip(self.samples, output)\<close> writes the outputs back and stops with the shorter of
  the two lists. The source has no check of the length of \<open>output\<close>.
\<close>

fun write_back :: "sample list \<Rightarrow> real list \<Rightarrow> sample list" where
  "write_back (s # ss) (v # vs) = s\<lparr>val := v\<rparr> # write_back ss vs"
| "write_back ss [] = ss"
| "write_back [] vs = []"

definition apply_function :: "reading \<Rightarrow> (real list \<Rightarrow> real list) \<Rightarrow> reading" where
  "apply_function r f = r\<lparr>samples := write_back (samples r) (f (map val (samples r)))\<rparr>"

subsection \<open>DataStore\<close>

record store =
  reading_storage_length :: int
  increase_buffer :: bool
  conversion_callbacks :: "(real list \<Rightarrow> real list) list"
  readings :: "reading list"

definition DataStore_init :: "int \<Rightarrow> bool \<Rightarrow> (real list \<Rightarrow> real list) list \<Rightarrow> store" where
  "DataStore_init n ib cbs =
     \<lparr>reading_storage_length = n, increase_buffer = ib, conversion_callbacks = cbs,
      readings = []\<rparr>"

text \<open>
  \<^verbatim>\<open>_insert_reading\<close>: \<^verbatim>\<open>map(lambda func: reading.apply_function(func), callbacks)\<close>
  applies the callbacks in order under Python 2 and builds an iterator that nobody
  consumes under Python 3; then the reading is appended.
\<close>

definition convert :: "pyver \<Rightarrow> (real list \<Rightarrow> real list) list \<Rightarrow> reading \<Rightarrow> reading" where
  "convert pv cbs r = (case pv of Py2 \<Rightarrow> foldl apply_function r cbs | Py3 \<Rightarrow> r)"

definition insert_reading :: "pyver \<Rightarrow> store \<Rightarrow> reading \<Rightarrow> store" where
  "insert_reading pv s r =
     s\<lparr>readings := readings s @ [convert pv (conversion_callbacks s) r]\<rparr>"

text \<open>
  The test that skips a reading: its time is zero and the list of its samples with a
  non-zero value is empty (\<^verbatim>\<open>any\<close> of a list of objects is true exactly when the list
  is non-empty: a \<^verbatim>\<open>Sample\<close> is always truthy).
\<close>

definition no_data :: "reading \<Rightarrow> bool" where
  "no_data r = (reading_time r = 0 \<and> filter (\<lambda>s. val s \<noteq> 0) (samples r) = [])"

text \<open>
  \<^verbatim>\<open>insert\<close>: the loop over the batch. A \<^verbatim>\<open>raise\<close> leaves the loop with the store as
  the earlier iterations made it; the result is the outcome and that store.
\<close>

fun insert_readings :: "pyver \<Rightarrow> store \<Rightarrow> reading list \<Rightarrow> (error + unit) \<times> store" where
  "insert_readings pv s [] = (Inr (), s)"
| "insert_readings pv s (r # rs) =
     (if no_data r then insert_readings pv s rs
      else if 0 < length (readings s) \<and> reading_time r \<le> reading_time (last (readings s))
      then (Inl NonMonotonicTimeError, s)
      else if reading_storage_length s \<le> int (length (readings s)) then
        (if increase_buffer s
         then insert_readings pv
                (insert_reading pv (s\<lparr>reading_storage_length := reading_storage_length s + 1\<rparr>) r) rs
         else (case readings s of
                 [] \<Rightarrow> (Inl IndexError, s)
               | old # kept \<Rightarrow> insert_readings pv (insert_reading pv (s\<lparr>readings := kept\<rparr>) r) rs))
      else insert_readings pv (insert_reading pv s r) rs)"

text \<open>
  \<^verbatim>\<open>insert_from_dict\<close>: every row is turned into a \<^verbatim>\<open>Reading\<close> first (a failing
  constructor leaves the store untouched), then the whole list is inserted.
\<close>

definition row_values :: "reading_dict \<Rightarrow> real list" where
  "row_values row = map d_value (d_samples row)"

fun rows_to_readings :: "(int \<Rightarrow> bool) \<Rightarrow> reading_dict list \<Rightarrow> error + reading list" where
  "rows_to_readings is_valid [] = Inr []"
| "rows_to_readings is_valid (row # rows) =
     (case Reading_init is_valid (d_reading_time row) (d_channels row) (row_values row) of
        Inl e \<Rightarrow> Inl e
      | Inr r \<Rightarrow> (case rows_to_readings is_valid rows of
                   Inl e \<Rightarrow> Inl e
                 | Inr rs \<Rightarrow> Inr (r # rs)))"

definition insert_from_dict ::
  "pyver \<Rightarrow> (int \<Rightarrow> bool) \<Rightarrow> store \<Rightarrow> reading_dict list \<Rightarrow> (error + unit) \<times> store" where
  "insert_from_dict pv is_valid s ddict =
     (case rows_to_readings is_valid ddict of
        Inl e \<Rightarrow> (Inl e, s)
      | Inr rs \<Rightarrow> insert_readings pv s rs)"

definition instance_from_dict ::
  "pyver \<Rightarrow> (int \<Rightarrow> bool) \<Rightarrow> reading_dict list \<Rightarrow> bool \<Rightarrow> (real list \<Rightarrow> real list) list
     \<Rightarrow> (error + unit) \<times> store" where
  "instance_from_dict pv is_valid ddict ib cbs =
     insert_from_dict pv is_valid (DataStore_init (int (length ddict)) ib cbs) ddict"

text \<open>
  \<^verbatim>\<open>instance_with_readings\<close>: a new store with this store's capacity and the default
  arguments of the constructor, filled through \<^verbatim>\<open>insert\<close>.
\<close>

definition instance_with_readings :: "pyver \<Rightarrow> store \<Rightarrow> reading list \<Rightarrow> (error + unit) \<times> store" where
  "instance_with_readings pv s rs =
     insert_readings pv (DataStore_init (reading_storage_length s) False []) rs"

definition find_readings_after :: "pyver \<Rightarrow> store \<Rightarrow> int \<Rightarrow> (error + unit) \<times> store" where
  "find_readings_after pv s t =
     instance_with_readings pv s (filter (\<lambda>r. t < reading_time r) (readings s))"

definition find_readings_before :: "pyver \<Rightarrow> store \<Rightarrow> int \<Rightarrow> (error + unit) \<times> store" where
  "find_readings_before pv s t =
     instance_with_readings pv s (filter (\<lambda>r. reading_time r \<le> t) (readings s))"

subsection \<open>Serialisation to JSON\<close>

text \<open>
  \<^verbatim>\<open>json.dumps\<close> belongs to the standard library. Its text for the mapping of one
  reading is the parameter \<open>enc\<close>; of a list it writes the elements between brackets,
  separated by a comma and a space.
\<close>

fun join :: "string \<Rightarrow> string list \<Rightarrow> string" where
  "join sep [] = []"
| "join sep [x] = x"
| "join sep (x # y # ys) = x @ sep @ join sep (y # ys)"

definition json_dumps :: "(reading_dict \<Rightarrow> string) \<Rightarrow> reading_dict list \<Rightarrow> string" where
  "json_dumps enc ds = ''['' @ join '', '' (map enc ds) @ '']''"

text \<open>
  \<^verbatim>\<open>len(json_encoded) > max_bytes\<close>, where \<open>max_bytes\<close> is \<^verbatim>\<open>None\<close> when the caller gave
  none: Python 2 orders \<^verbatim>\<open>None\<close> below every integer, Python 3 raises \<^verbatim>\<open>TypeError\<close>.
\<close>

fun len_gt :: "pyver \<Rightarrow> nat \<Rightarrow> int option \<Rightarrow> error + bool" where
  "len_gt pv n (Some m) = Inr (m < int n)"
| "len_gt Py2 n None = Inr True"
| "len_gt Py3 n None = Inl TypeError"

text \<open>
  The loop \<^verbatim>\<open>while len(json_encoded) > max_bytes: json_encoded =
  json.dumps(json_readings[:-1])\<close>. The list \<open>json_readings\<close> is never assigned in the
  loop. The loop need not end, so its result is an option: \<open>None\<close> is "does not return".
\<close>

partial_function (option) trim_loop ::
  "pyver \<Rightarrow> (reading_dict \<Rightarrow> string) \<Rightarrow> reading_dict list \<Rightarrow> int option \<Rightarrow> string
     \<Rightarrow> (error + string) option" where
  "trim_loop pv enc json_readings max_bytes json_encoded =
     (case len_gt pv (length json_encoded) max_bytes of
        Inl e \<Rightarrow> Some (Inl e)
      | Inr b \<Rightarrow>
          (if b then trim_loop pv enc json_readings max_bytes
                       (json_dumps enc (butlast json_readings))
           else Some (Inr json_encoded)))"

definition json_repr ::
  "pyver \<Rightarrow> (reading_dict \<Rightarrow> string) \<Rightarrow> store \<Rightarrow> int option \<Rightarrow> bool \<Rightarrow> (error + string) option" where
  "json_repr pv enc s max_bytes max_bytes_data_trim =
     (let json_readings = map dict_repr (readings s);
          json_encoded = json_dumps enc json_readings
      in case len_gt pv (length json_encoded) max_bytes of
           Inl e \<Rightarrow> Some (Inl e)
         | Inr b \<Rightarrow>
             (if b then
                (if max_bytes_data_trim
                 then trim_loop pv enc json_readings max_bytes json_encoded
                 else Some (Inl PayloadTooLargeError))
              else Some (Inr json_encoded)))"

text \<open>
  The example encoder used where a concrete text is needed: what \<^verbatim>\<open>json.dumps\<close> writes for
  the mapping of one reading, the keys in the order in which \<^verbatim>\<open>dict_repr\<close> lists them
  (Python 2 may write them in another order; the length of the text is the same).
  Integers are written in decimal; the text of a float is the parameter \<open>float_repr\<close>.
\<close>

fun digits :: "nat \<Rightarrow> string" where
  "digits n = (if n < 10 then [char_of (48 + n)]
               else digits (n div 10) @ [char_of (48 + n mod 10)])"

declare digits.simps [simp del]

definition json_int :: "int \<Rightarrow> string" where
  "json_int i = (if i < 0 then ''-'' @ digits (nat (- i)) else digits (nat i))"

definition json_sample :: "(real \<Rightarrow> string) \<Rightarrow> sample_dict \<Rightarrow> string" where
  \<open>json_sample float_repr sd =
     ''{"channel": '' @ json_int (d_channel sd) @ '', "value": '' @ float_repr (d_value sd) @ ''}''\<close>

definition json_reading :: "(real \<Rightarrow> string) \<Rightarrow> reading_dict \<Rightarrow> string" where
  \<open>json_reading float_repr d =
     ''{"reading_time": '' @ json_int (d_reading_time d)
     @ '', "channels": ['' @ join '', '' (map json_int (d_channels d))
     @ ''], "samples": ['' @ join '', '' (map (json_sample float_repr) (d_samples d)) @ '']}''\<close>

subsection \<open>The stores a program can build\<close>

text \<open>
  The order of the readings: their times increase strictly along the list.
\<close>

definition ascending :: "reading list \<Rightarrow> bool" where
  "ascending rs = sorted_wrt (<) (map reading_time rs)"

text \<open>
  The stores that calls of \<^verbatim>\<open>insert\<close> and \<^verbatim>\<open>insert_from_dict\<close> make from a store
  \<open>s0\<close>, whether the calls return or raise: a call that raises leaves behind the store
  of its last completed iteration.
\<close>

inductive reachable :: "pyver \<Rightarrow> (int \<Rightarrow> bool) \<Rightarrow> store \<Rightarrow> store \<Rightarrow> bool"
  for pv :: pyver and is_valid :: "int \<Rightarrow> bool" and s0 :: store where
  start: "reachable pv is_valid s0 s0"
| by_insert: "reachable pv is_valid s0 s \<Longrightarrow> reachable pv is_valid s0 (snd (insert_readings pv s rs))"
| by_insert_from_dict:
    "reachable pv is_valid s0 s \<Longrightarrow> reachable pv is_valid s0 (snd (insert_from_dict pv is_valid s ddict))"

text \<open>
  Inserting readings one at a time: one call of \<^verbatim>\<open>insert\<close> with a list of one reading
  for each of them, until a call raises.
\<close>

fun insert_each :: "pyver \<Rightarrow> store \<Rightarrow> reading list \<Rightarrow> (error + unit) \<times> store" where
  "insert_each pv s [] = (Inr (), s)"
| "insert_each pv s (r # rs) =
     (case insert_readings pv s [r] of
        (Inl e, s') \<Rightarrow> (Inl e, s')
      | (Inr u, s') \<Rightarrow> insert_each pv s' rs)"

section \<open>Properties\<close>

subsection \<open>Insertion keeps the times ascending\<close>

lemma reading_time_apply_function: "reading_time (apply_function r f) = reading_time r"
  by (simp add: apply_function_def)

lemma reading_time_foldl_apply: "reading_time (foldl apply_function r cbs) = reading_time r"
  by (induction cbs arbitrary: r) (simp_all add: reading_time_apply_function)

lemma reading_time_convert: "reading_time (convert pv cbs r) = reading_time r"
  by (cases pv) (simp_all add: convert_def reading_time_foldl_apply)

lemma ascending_le_last:
  "ascending rs \<Longrightarrow> x \<in> set rs \<Longrightarrow> reading_time x \<le> reading_time (last rs)"
proof (induction rs)
  case Nil then show ?case by simp
next
  case (Cons a rs)
  then show ?case
    using last_in_set[of rs] by (cases "rs = []") (auto simp: ascending_def intro: less_imp_le)
qed

lemma ascending_snoc:
  "ascending rs \<Longrightarrow> (rs \<noteq> [] \<Longrightarrow> reading_time (last rs) < reading_time r) \<Longrightarrow> ascending (rs @ [r])"
  using ascending_le_last[of rs]
  by (cases "rs = []") (fastforce simp: ascending_def sorted_wrt_append)+

lemma ascending_tl: "ascending (x # rs) \<Longrightarrow> ascending rs"
  by (simp add: ascending_def)

lemma ascending_append_snoc:
  "ascending (xs @ r # rs) \<Longrightarrow> reading_time r' = reading_time r \<Longrightarrow> ascending ((xs @ [r']) @ rs)"
  by (simp add: ascending_def)

lemma ascending_last_less:
  "ascending (xs @ r # rs) \<Longrightarrow> xs \<noteq> [] \<Longrightarrow> reading_time (last xs) < reading_time r"
  by (simp add: ascending_def sorted_wrt_append)

lemma ascending_Max_last:
  assumes "ascending rs" and "rs \<noteq> []"
  shows "Max (reading_time ` set rs) = reading_time (last rs)"
proof (rule Max_eqI)
  show "finite (reading_time ` set rs)" by simp
  show "y \<le> reading_time (last rs)" if "y \<in> reading_time ` set rs" for y
    using that ascending_le_last[OF assms(1)] by auto
  show "reading_time (last rs) \<in> reading_time ` set rs"
    using assms(2) by simp
qed

lemma ascending_filter: "ascending rs \<Longrightarrow> ascending (filter P rs)"
  by (induction rs) (auto simp: ascending_def)

lemma ascending_split:
  "ascending rs \<Longrightarrow>
   filter (\<lambda>r. reading_time r \<le> t) rs @ filter (\<lambda>r. t < reading_time r) rs = rs"
proof (induction rs)
  case Nil show ?case by simp
next
  case (Cons a rs)
  then have IH: "filter (\<lambda>r. reading_time r \<le> t) rs @ filter (\<lambda>r. t < reading_time r) rs = rs"
    by (simp add: ascending_def)
  show ?case
  proof (cases "reading_time a \<le> t")
    case True with IH show ?thesis by simp
  next
    case False
    then have "\<forall>r \<in> set rs. t < reading_time r"
      using Cons.prems by (auto simp: ascending_def)
    then have "filter (\<lambda>r. reading_time r \<le> t) rs = []" "filter (\<lambda>r. t < reading_time r) rs = rs"
      by (auto simp: filter_empty_conv)
    with False show ?thesis by simp
  qed
qed

lemma strict_sorted_distinct: "sorted_wrt (<) (xs :: int list) \<Longrightarrow> distinct xs"
  by (induction xs) auto

lemma insert_readings_fields:
  "increase_buffer (snd (insert_readings pv s rs)) = increase_buffer s
   \<and> conversion_callbacks (snd (insert_readings pv s rs)) = conversion_callbacks s"
  by (induction rs arbitrary: s) (auto simp: insert_reading_def split: list.splits)

lemma insert_readings_ascending:
  "ascending (readings s) \<Longrightarrow> ascending (readings (snd (insert_readings pv s rs)))"
proof (induction rs arbitrary: s)
  case Nil then show ?case by simp
next
  case (Cons r rs)
  show ?case
  proof (cases "no_data r")
    case True
    with Cons show ?thesis by simp
  next
    case nd: False
    show ?thesis
    proof (cases "0 < length (readings s) \<and> reading_time r \<le> reading_time (last (readings s))")
      case True
      with nd Cons.prems show ?thesis by simp
    next
      case ok: False
      have app: "ascending (readings s @ [convert pv cbs r])" for cbs
        using Cons.prems ok by (intro ascending_snoc) (auto simp: reading_time_convert)
      have app_tl: "ascending (kept @ [convert pv cbs r])" if "readings s = old # kept" for old kept cbs
      proof (rule ascending_snoc)
        show "ascending kept" using Cons.prems that by (simp add: ascending_def)
        show "reading_time (last kept) < reading_time (convert pv cbs r)" if "kept \<noteq> []"
          using ok \<open>readings s = old # kept\<close> that by (simp add: reading_time_convert)
      qed
      show ?thesis
        using nd ok app app_tl Cons.prems
        by (auto simp: insert_reading_def split: list.splits intro!: Cons.IH)
    qed
  qed
qed

lemma insert_readings_append:
  "insert_readings pv s (xs @ ys) =
     (case insert_readings pv s xs of
        (Inl e, s') \<Rightarrow> (Inl e, s')
      | (Inr u, s') \<Rightarrow> insert_readings pv s' ys)"
  by (induction xs arbitrary: s) (auto split: list.splits)

text \<open>
  A property that holds of the first store and that every call of \<^verbatim>\<open>insert\<close> keeps holds
  of every store built from it: \<^verbatim>\<open>insert_from_dict\<close> either fails in a constructor, and
  leaves the store alone, or is a call of \<^verbatim>\<open>insert\<close>.
\<close>

lemma insert_from_dict_cases:
  "snd (insert_from_dict pv iv s d) = s \<or> (\<exists>rs. snd (insert_from_dict pv iv s d) = snd (insert_readings pv s rs))"
  by (auto simp: insert_from_dict_def split: sum.splits)

lemma reachable_induct_insert:
  assumes "reachable pv iv s0 s" and "P s0"
    and "\<And>s rs. P s \<Longrightarrow> P (snd (insert_readings pv s rs))"
  shows "P s"
  using assms(1)
proof (induction rule: reachable.induct)
  case start show ?case by (rule assms(2))
next
  case (by_insert s rs) then show ?case by (simp add: assms(3))
next
  case (by_insert_from_dict s d)
  with insert_from_dict_cases[of pv iv s d] show ?case by (auto simp: assms(3))
qed

lemma reachable_ascending:
  "reachable pv iv (DataStore_init c ib cbs) s \<Longrightarrow> ascending (readings s)"
  by (erule reachable_induct_insert)
     (simp_all add: DataStore_init_def ascending_def insert_readings_ascending[unfolded ascending_def])

lemma insert_readings_capacity:
  "0 \<le> reading_storage_length s \<Longrightarrow> int (length (readings s)) \<le> reading_storage_length s \<Longrightarrow>
   int (length (readings (snd (insert_readings pv s rs)))) \<le> reading_storage_length (snd (insert_readings pv s rs))
   \<and> reading_storage_length s \<le> reading_storage_length (snd (insert_readings pv s rs))
   \<and> (\<not> increase_buffer s \<longrightarrow> reading_storage_length (snd (insert_readings pv s rs)) = reading_storage_length s)"
proof (induction rs arbitrary: s)
  case Nil then show ?case by simp
next
  case (Cons r rs)
  show ?case
  proof (cases "no_data r")
    case True with Cons show ?thesis by simp
  next
    case nd: False
    show ?thesis
    proof (cases "0 < length (readings s) \<and> reading_time r \<le> reading_time (last (readings s))")
      case True with nd Cons.prems show ?thesis by simp
    next
      case ok: False
      show ?thesis
      proof (cases "reading_storage_length s \<le> int (length (readings s))")
        case full: True
        show ?thesis
        proof (cases "increase_buffer s")
          case True
          let ?s1 = "insert_reading pv (s\<lparr>reading_storage_length := reading_storage_length s + 1\<rparr>) r"
          have "0 \<le> reading_storage_length ?s1" "int (length (readings ?s1)) \<le> reading_storage_length ?s1"
            using Cons.prems by (simp_all add: insert_reading_def)
          from Cons.IH[OF this] nd ok full True show ?thesis
            by (auto simp: insert_reading_def)
        next
          case False
          show ?thesis
          proof (cases "readings s")
            case Nil with nd ok full False Cons.prems show ?thesis by simp
          next
            case evict: (Cons old kept)
            let ?s1 = "insert_reading pv (s\<lparr>readings := kept\<rparr>) r"
            have "0 \<le> reading_storage_length ?s1" "int (length (readings ?s1)) \<le> reading_storage_length ?s1"
              using Cons.prems evict by (simp_all add: insert_reading_def)
            from Cons.IH[OF this] nd ok full False evict show ?thesis
              by (auto simp: insert_reading_def)
          qed
        qed
      next
        case False
        let ?s1 = "insert_reading pv s r"
        have "0 \<le> reading_storage_length ?s1" "int (length (readings ?s1)) \<le> reading_storage_length ?s1"
          using Cons.prems False by (simp_all add: insert_reading_def)
        from Cons.IH[OF this] nd ok False show ?thesis
          by (auto simp: insert_reading_def)
      qed
    qed
  qed
qed

lemma reachable_capacity:
  assumes "reachable pv iv (DataStore_init c ib cbs) s" and "0 \<le> c"
  shows "int (length (readings s)) \<le> reading_storage_length s
       \<and> c \<le> reading_storage_length s \<and> increase_buffer s = ib
       \<and> (\<not> ib \<longrightarrow> reading_storage_length s = c)"
proof -
  let ?P = "\<lambda>s::store. int (length (readings s)) \<le> reading_storage_length s
       \<and> c \<le> reading_storage_length s \<and> increase_buffer s = ib
       \<and> (\<not> ib \<longrightarrow> reading_storage_length s = c)"
  show "?P s"
    using assms(1)
  proof (rule reachable_induct_insert)
    show "?P (DataStore_init c ib cbs)" using assms(2) by (simp add: DataStore_init_def)
  next
    fix s rs assume P: "?P s"
    then have "0 \<le> reading_storage_length s" using assms(2) by simp
    from insert_readings_capacity[OF this, of pv rs] P insert_readings_fields[of pv s rs]
    show "?P (snd (insert_readings pv s rs))" by auto
  qed
qed

text \<open>
  Without conversion callbacks a stored reading is never the no-data reading.
\<close>

lemma convert_no_callbacks: "convert pv [] r = r"
  by (cases pv) (simp_all add: convert_def)

lemma map_convert_no_callbacks: "map (convert pv []) rs = rs"
  by (induction rs) (simp_all add: convert_no_callbacks)

lemma insert_readings_keeps_data:
  "conversion_callbacks s = [] \<Longrightarrow> list_all (\<lambda>r. \<not> no_data r) (readings s) \<Longrightarrow>
   list_all (\<lambda>r. \<not> no_data r) (readings (snd (insert_readings pv s rs)))"
proof (induction rs arbitrary: s)
  case Nil then show ?case by simp
next
  case (Cons r rs)
  have tl: "list_all (\<lambda>r. \<not> no_data r) kept" if "readings s = old # kept" for old kept
    using Cons.prems(2) that by simp
  show ?case
    using Cons.prems tl
    by (auto simp: insert_reading_def convert_no_callbacks split: list.splits intro!: Cons.IH)
qed

lemma reachable_keeps_data:
  assumes "reachable pv iv (DataStore_init c ib []) s"
  shows "list_all (\<lambda>r. \<not> no_data r) (readings s)"
proof -
  let ?P = "\<lambda>s::store. conversion_callbacks s = [] \<and> list_all (\<lambda>r. \<not> no_data r) (readings s)"
  have "?P s"
    using assms
  proof (rule reachable_induct_insert)
    show "?P (DataStore_init c ib [])" by (simp add: DataStore_init_def)
  next
    fix s rs assume "?P s"
    then show "?P (snd (insert_readings pv s rs))"
      using insert_readings_fields[of pv s rs] by (simp add: insert_readings_keeps_data)
  qed
  then show ?thesis by simp
qed

text \<open>
  The stores built from an empty store of capacity zero or more without callbacks: their
  times ascend, they hold no more readings than their capacity and no no-data reading.
\<close>

lemma reachable_plain_store:
  assumes "reachable pv iv (DataStore_init c ib []) s" and "0 \<le> c"
  shows "sorted_wrt (<) (map reading_time (readings s))
       \<and> int (length (readings s)) \<le> reading_storage_length s
       \<and> list_all (\<lambda>r. \<not> no_data r) (readings s)"
  using reachable_ascending[OF assms(1)] reachable_capacity[OF assms]
    reachable_keeps_data[OF assms(1)]
  by (simp add: ascending_def)

subsection \<open>The invariant of the store\<close>

text \<open>
  C3, amended. The claim fails for a store constructed with a negative capacity, which
  the constructor accepts: the empty store already holds more readings (none) than its
  capacity. For every store built from an empty store of capacity \<open>c \<ge> 0\<close> by any
  sequence of \<^verbatim>\<open>insert\<close> and \<^verbatim>\<open>insert_from_dict\<close> calls, raising or not, the times of
  the readings increase strictly (so no time occurs twice), the number of readings is at
  most the capacity, the capacity is at least \<open>c\<close>, and it is still \<open>c\<close> when
  \<^verbatim>\<open>increase_buffer\<close> is false.
\<close>

theorem store_invariant:
  assumes "reachable pv iv (DataStore_init c ib cbs) s" and "0 \<le> c"
  shows "sorted_wrt (<) (map reading_time (readings s))
       \<and> distinct (map reading_time (readings s))
       \<and> int (length (readings s)) \<le> reading_storage_length s
       \<and> c \<le> reading_storage_length s
       \<and> (if ib then increase_buffer s else reading_storage_length s = c)"
proof -
  have "sorted_wrt (<) (map reading_time (readings s))"
    using reachable_ascending[OF assms(1)] by (simp add: ascending_def)
  with reachable_capacity[OF assms] show ?thesis
    by (auto dest: strict_sorted_distinct)
qed

text \<open>
  An instance: capacity one, three readings in one call, the third of which raises; the
  store is left with the second reading.
\<close>

theorem store_invariant_witness:
  "readings (snd (insert_readings Py2 (DataStore_init 1 False [])
      [\<lparr>reading_time = 1, channels = [], samples = []\<rparr>,
       \<lparr>reading_time = 2, channels = [], samples = []\<rparr>,
       \<lparr>reading_time = 2, channels = [], samples = []\<rparr>]))
     = [\<lparr>reading_time = 2, channels = [], samples = []\<rparr>]
   \<and> sorted_wrt (<) (map reading_time (readings (snd (insert_readings Py2 (DataStore_init 1 False [])
      [\<lparr>reading_time = 1, channels = [], samples = []\<rparr>,
       \<lparr>reading_time = 2, channels = [], samples = []\<rparr>,
       \<lparr>reading_time = 2, channels = [], samples = []\<rparr>]))))
   \<and> int (length (readings (snd (insert_readings Py2 (DataStore_init 1 False [])
      [\<lparr>reading_time = 1, channels = [], samples = []\<rparr>,
       \<lparr>reading_time = 2, channels = [], samples = []\<rparr>,
       \<lparr>reading_time = 2, channels = [], samples = []\<rparr>]))))
     \<le> reading_storage_length (snd (insert_readings Py2 (DataStore_init 1 False [])
      [\<lparr>reading_time = 1, channels = [], samples = []\<rparr>,
       \<lparr>reading_time = 2, channels = [], samples = []\<rparr>,
       \<lparr>reading_time = 2, channels = [], samples = []\<rparr>]))"
proof -
  let ?init = "DataStore_init 1 False []"
  let ?rs = "[\<lparr>reading_time = 1, channels = [], samples = []\<rparr>,
       \<lparr>reading_time = 2, channels = [], samples = []\<rparr>,
       \<lparr>reading_time = 2, channels = [], samples = []\<rparr>]"
  have a: "reachable Py2 (\<lambda>c. True) ?init (snd (insert_readings Py2 ?init ?rs))"
    by (rule reachable.by_insert) (rule reachable.start)
  have b: "(0::int) \<le> 1" by simp
  have c: "readings (snd (insert_readings Py2 ?init ?rs)) = [\<lparr>reading_time = 2, channels = [], samples = []\<rparr>]"
    by (simp add: DataStore_init_def no_data_def insert_reading_def convert_def)
  from store_invariant[OF a b] c show ?thesis by simp
qed

text \<open>
  The claim as stated fails at the store \<^verbatim>\<open>DataStore(-1)\<close> before any insertion.
\<close>

theorem store_invariant_counterexample:
  "reachable Py2 (\<lambda>c. True) (DataStore_init (- 1) False []) (DataStore_init (- 1) False [])
   \<and> \<not> int (length (readings (DataStore_init (- 1) False [])))
         \<le> reading_storage_length (DataStore_init (- 1) False [])"
  by (simp add: DataStore_init_def reachable.start)

subsection \<open>A store without room\<close>

lemma insert_readings_no_room:
  "readings s = [] \<Longrightarrow> reading_storage_length s \<le> 0 \<Longrightarrow> \<not> increase_buffer s \<Longrightarrow>
   snd (insert_readings pv s rs) = s"
  by (induction rs) auto

text \<open>
  C10. A store constructed with a capacity of zero or less and \<^verbatim>\<open>increase_buffer=False\<close>
  stays empty whatever is inserted, and inserting a reading that is not the no-data
  reading raises \<^verbatim>\<open>IndexError\<close>, from \<^verbatim>\<open>del(self.readings[0])\<close> on the empty list: the
  test of the capacity is made although there is nothing to evict. The store is left as
  it was.
\<close>

theorem insert_zero_capacity_index_error:
  assumes "reachable pv iv (DataStore_init c False cbs) s" and "c \<le> 0" and "\<not> no_data r"
  shows "readings s = [] \<and> insert_readings pv s [r] = (Inl IndexError, s)"
proof -
  let ?P = "\<lambda>s::store. readings s = [] \<and> reading_storage_length s \<le> 0 \<and> \<not> increase_buffer s"
  have "?P s"
    using assms(1)
  proof (rule reachable_induct_insert)
    show "?P (DataStore_init c False cbs)" using assms(2) by (simp add: DataStore_init_def)
  next
    fix s rs assume "?P s"
    then show "?P (snd (insert_readings pv s rs))" by (simp add: insert_readings_no_room)
  qed
  with assms(3) show ?thesis by simp
qed

theorem insert_zero_capacity_index_error_witness:
  "insert_readings Py2
     (snd (insert_readings Py2 (DataStore_init 0 False [])
        [\<lparr>reading_time = 0, channels = [1], samples = [\<lparr>channel = 1, val = 0\<rparr>]\<rparr>]))
     [\<lparr>reading_time = 3, channels = [1], samples = [\<lparr>channel = 1, val = 0\<rparr>]\<rparr>]
   = (Inl IndexError, DataStore_init 0 False [])"
proof -
  let ?init = "DataStore_init 0 False []"
  let ?st = "snd (insert_readings Py2 ?init
        [\<lparr>reading_time = 0, channels = [1], samples = [\<lparr>channel = 1, val = 0\<rparr>]\<rparr>])"
  let ?r = "\<lparr>reading_time = 3, channels = [1], samples = [\<lparr>channel = 1, val = 0\<rparr>]\<rparr>"
  have a: "reachable Py2 (\<lambda>c. True) ?init ?st"
    by (rule reachable.by_insert) (rule reachable.start)
  have b: "(0::int) \<le> 0" by simp
  have c: "\<not> no_data ?r" by (simp add: no_data_def)
  have d: "?st = ?init" by (simp add: no_data_def)
  from insert_zero_capacity_index_error[OF a b c]
  have e: "insert_readings Py2 ?st [?r] = (Inl IndexError, ?st)" ..
  show ?thesis by (rule trans[OF e]) (simp only: d)
qed

subsection \<open>The no-data reading\<close>

text \<open>
  C5. A reading whose time is zero and whose sample values are all zero is skipped by
  \<^verbatim>\<open>insert\<close>, whatever the store holds: the call returns normally and the store, its
  readings and its capacity, is the one before the call. The skipping branch comes before
  the call of \<open>insert_reading\<close>, the only place where the callbacks are applied. In a
  batch the loop goes on with the next reading.
\<close>

theorem insert_no_data_skipped:
  assumes "reading_time r = 0" and "list_all (\<lambda>x. val x = 0) (samples r)"
  shows "insert_readings pv s [r] = (Inr (), s)
       \<and> insert_readings pv s (r # rs) = insert_readings pv s rs"
proof -
  from assms(2) have "filter (\<lambda>x. val x \<noteq> 0) (samples r) = []"
    by (induction "samples r") (auto simp: list_all_iff filter_empty_conv)
  with assms(1) have "no_data r"
    by (simp add: no_data_def)
  then show ?thesis by simp
qed

theorem insert_no_data_skipped_witness:
  "insert_readings Py2
     \<lparr>reading_storage_length = 3, increase_buffer = False,
      conversion_callbacks = [map (\<lambda>v. v + 1)],
      readings = [\<lparr>reading_time = 5, channels = [1, 2],
                  samples = [\<lparr>channel = 1, val = 0\<rparr>, \<lparr>channel = 2, val = 0\<rparr>]\<rparr>]\<rparr>
     [\<lparr>reading_time = 0, channels = [1, 2],
       samples = [\<lparr>channel = 1, val = 0\<rparr>, \<lparr>channel = 2, val = 0\<rparr>]\<rparr>]
   = (Inr (),
     \<lparr>reading_storage_length = 3, increase_buffer = False,
      conversion_callbacks = [map (\<lambda>v. v + 1)],
      readings = [\<lparr>reading_time = 5, channels = [1, 2],
                  samples = [\<lparr>channel = 1, val = 0\<rparr>, \<lparr>channel = 2, val = 0\<rparr>]\<rparr>]\<rparr>)"
  using insert_no_data_skipped
    [of "\<lparr>reading_time = 0, channels = [1, 2],
          samples = [\<lparr>channel = 1, val = 0\<rparr>, \<lparr>channel = 2, val = 0\<rparr>]\<rparr>" Py2
        "\<lparr>reading_storage_length = 3, increase_buffer = False,
          conversion_callbacks = [map (\<lambda>v. v + 1)],
          readings = [\<lparr>reading_time = 5, channels = [1, 2],
                      samples = [\<lparr>channel = 1, val = 0\<rparr>, \<lparr>channel = 2, val = 0\<rparr>]\<rparr>]\<rparr>" "[]"]
  by simp

subsection \<open>Readings that are not later than the last one\<close>

text \<open>
  C2, amended. The claim fails for the no-data reading (time zero, all values zero): the
  test that skips it comes first, so it is skipped without an error even when the store
  holds a reading with a time of zero or more. For every non-empty store built by
  \<^verbatim>\<open>insert\<close> and \<^verbatim>\<open>insert_from_dict\<close> calls and every reading that is not the
  no-data reading and whose time is at most the greatest time in the store, \<^verbatim>\<open>insert\<close> raises the exception "A new reading
  time is earlier than an existing reading time" and leaves the store as it was before
  that reading: nothing is evicted, converted or appended for it. In a batch, the
  readings inserted before it stay in the store and those after it are not looked at.
\<close>

theorem insert_not_later_fails:
  assumes "reachable pv iv (DataStore_init c ib cbs) s0"
    and "insert_readings pv s0 earlier = (Inr (), s)"
    and "readings s \<noteq> []"
    and "\<not> no_data r"
    and "reading_time r \<le> Max (reading_time ` set (readings s))"
  shows "insert_readings pv s [r] = (Inl NonMonotonicTimeError, s)
       \<and> insert_readings pv s0 (earlier @ r # later) = (Inl NonMonotonicTimeError, s)"
proof -
  have "reachable pv iv (DataStore_init c ib cbs) (snd (insert_readings pv s0 earlier))"
    using assms(1) by (rule reachable.by_insert)
  then have "ascending (readings s)"
    using assms(2) by (auto dest: reachable_ascending)
  with assms(3,5) have "reading_time r \<le> reading_time (last (readings s))"
    by (simp add: ascending_Max_last)
  with assms(3,4) have step: "insert_readings pv s (r # later') = (Inl NonMonotonicTimeError, s)" for later'
    by simp
  then show ?thesis
    using assms(2) by (simp add: insert_readings_append)
qed

text \<open>
  An instance: the second reading of the batch has the time of the first; the first
  stays in the store, converted by the callback (under Python 2).
\<close>

theorem insert_not_later_fails_witness:
  "insert_readings Py2 (DataStore_init 2 False [map (\<lambda>v. 2 * v)])
     [\<lparr>reading_time = 4, channels = [1], samples = [\<lparr>channel = 1, val = 3\<rparr>]\<rparr>,
      \<lparr>reading_time = 4, channels = [1], samples = [\<lparr>channel = 1, val = 9\<rparr>]\<rparr>,
      \<lparr>reading_time = 7, channels = [1], samples = [\<lparr>channel = 1, val = 1\<rparr>]\<rparr>]
   = (Inl NonMonotonicTimeError,
      \<lparr>reading_storage_length = 2, increase_buffer = False,
       conversion_callbacks = [map (\<lambda>v. 2 * v)],
       readings = [\<lparr>reading_time = 4, channels = [1], samples = [\<lparr>channel = 1, val = 6\<rparr>]\<rparr>]\<rparr>)"
proof -
  let ?init = "DataStore_init 2 False [map (\<lambda>v::real. 2 * v)]"
  let ?r1 = "\<lparr>reading_time = 4, channels = [1], samples = [\<lparr>channel = 1, val = 3\<rparr>]\<rparr>"
  let ?r2 = "\<lparr>reading_time = 4, channels = [1], samples = [\<lparr>channel = 1, val = 9\<rparr>]\<rparr>"
  let ?r3 = "\<lparr>reading_time = 7, channels = [1], samples = [\<lparr>channel = 1, val = 1\<rparr>]\<rparr>"
  let ?st = "\<lparr>reading_storage_length = 2, increase_buffer = False,
       conversion_callbacks = [map (\<lambda>v::real. 2 * v)],
       readings = [\<lparr>reading_time = 4, channels = [1], samples = [\<lparr>channel = 1, val = 6\<rparr>]\<rparr>]\<rparr>"
  have a: "reachable Py2 (\<lambda>c. True) ?init ?init" by (rule reachable.start)
  have b: "insert_readings Py2 ?init [?r1] = (Inr (), ?st)"
    by (simp add: DataStore_init_def no_data_def insert_reading_def convert_def apply_function_def)
  have c: "readings ?st \<noteq> []" by simp
  have d: "\<not> no_data ?r2" by (simp add: no_data_def)
  have e: "reading_time ?r2 \<le> Max (reading_time ` set (readings ?st))" by simp
  from insert_not_later_fails[OF a b c d e, of "[?r3]"] show ?thesis by simp
qed

text \<open>
  The claim as stated fails on the example of the specification: the store holds the
  reading of time 5 and the no-data reading is inserted; the call returns normally.
\<close>

theorem insert_not_later_counterexample:
  "reading_time \<lparr>reading_time = 0, channels = [1, 2],
                 samples = [\<lparr>channel = 1, val = 0\<rparr>, \<lparr>channel = 2, val = 0\<rparr>]\<rparr>
     \<le> Max (reading_time ` set (readings (snd (insert_readings Py2 (DataStore_init 3 False [])
          [\<lparr>reading_time = 5, channels = [1, 2],
            samples = [\<lparr>channel = 1, val = 0\<rparr>, \<lparr>channel = 2, val = 0\<rparr>]\<rparr>]))))
   \<and> insert_readings Py2
       (snd (insert_readings Py2 (DataStore_init 3 False [])
          [\<lparr>reading_time = 5, channels = [1, 2],
            samples = [\<lparr>channel = 1, val = 0\<rparr>, \<lparr>channel = 2, val = 0\<rparr>]\<rparr>]))
       [\<lparr>reading_time = 0, channels = [1, 2],
         samples = [\<lparr>channel = 1, val = 0\<rparr>, \<lparr>channel = 2, val = 0\<rparr>]\<rparr>]
     = (Inr (),
        \<lparr>reading_storage_length = 3, increase_buffer = False, conversion_callbacks = [],
         readings = [\<lparr>reading_time = 5, channels = [1, 2],
                      samples = [\<lparr>channel = 1, val = 0\<rparr>, \<lparr>channel = 2, val = 0\<rparr>]\<rparr>]\<rparr>)"
  by (simp add: DataStore_init_def no_data_def insert_reading_def convert_def)

subsection \<open>Conversion functions\<close>

lemma write_back_channel: "map channel (write_back ss vs) = map channel ss"
  by (induction ss vs rule: write_back.induct) simp_all

lemma write_back_val:
  "map val (write_back ss vs) = take (length ss) vs @ drop (length vs) (map val ss)"
  by (induction ss vs rule: write_back.induct) simp_all

text \<open>
  C6, amended. \<^verbatim>\<open>apply_function\<close> has no check of the length of what the function
  returns and raises nothing of its own. It writes the returned values into the samples
  in order and stops at the end of the shorter list: when the function returns fewer
  values the remaining samples keep their values, when it returns more the rest is
  ignored. The time, the channels and the channel of every sample are unchanged.
\<close>

theorem apply_function_writes_prefix:
  "reading_time (apply_function r f) = reading_time r
   \<and> channels (apply_function r f) = channels r
   \<and> map channel (samples (apply_function r f)) = map channel (samples r)
   \<and> map val (samples (apply_function r f))
       = take (length (samples r)) (f (map val (samples r)))
         @ drop (length (f (map val (samples r)))) (map val (samples r))"
  by (simp add: apply_function_def write_back_channel write_back_val)

text \<open>
  The claim as stated fails for the function \<open>tl\<close>, which returns one value for two:
  the call returns, the first sample has the new value and the second its old one.
\<close>

theorem apply_function_arity_counterexample:
  "length (tl (map val [\<lparr>channel = 1, val = 1\<rparr>, \<lparr>channel = 2, val = 2\<rparr>]))
     \<noteq> length (map val [\<lparr>channel = 1, val = 1\<rparr>, \<lparr>channel = 2, val = 2\<rparr>])
   \<and> apply_function
       \<lparr>reading_time = 1, channels = [1, 2],
        samples = [\<lparr>channel = 1, val = 1\<rparr>, \<lparr>channel = 2, val = 2\<rparr>]\<rparr> tl
     = \<lparr>reading_time = 1, channels = [1, 2],
        samples = [\<lparr>channel = 1, val = 2\<rparr>, \<lparr>channel = 2, val = 2\<rparr>]\<rparr>"
  by (simp add: apply_function_def)

subsection \<open>A full store evicts the oldest reading\<close>

lemma insert_each_eq: "insert_each pv s rs = insert_readings pv s rs"
proof (induction rs arbitrary: s)
  case Nil show ?case by simp
next
  case (Cons r rs)
  have "insert_readings pv s (r # rs) = insert_readings pv s ([r] @ rs)" by simp
  also have "\<dots> = (case insert_readings pv s [r] of
        (Inl e, s') \<Rightarrow> (Inl e, s') | (Inr u, s') \<Rightarrow> insert_readings pv s' rs)"
    by (rule insert_readings_append)
  finally show ?case by (simp add: Cons.IH split: prod.splits sum.splits)
qed

lemma insert_fits:
  assumes "int (length (readings s) + length rs) \<le> reading_storage_length s"
    and "ascending (readings s @ rs)"
    and "list_all (\<lambda>r. \<not> no_data r) rs"
  shows "insert_readings pv s rs
       = (Inr (), s\<lparr>readings := readings s @ map (convert pv (conversion_callbacks s)) rs\<rparr>)"
  using assms
proof (induction rs arbitrary: s)
  case Nil show ?case by simp
next
  case (Cons r rs)
  let ?s1 = "insert_reading pv s r"
  have mono: "\<not> (0 < length (readings s) \<and> reading_time r \<le> reading_time (last (readings s)))"
    using ascending_last_less[OF Cons.prems(2)] by auto
  have room: "\<not> reading_storage_length s \<le> int (length (readings s))"
    using Cons.prems(1) by simp
  have step: "insert_readings pv s (r # rs) = insert_readings pv ?s1 rs"
    using Cons.prems(3) mono room by auto
  have "insert_readings pv ?s1 rs
      = (Inr (), ?s1\<lparr>readings := readings ?s1 @ map (convert pv (conversion_callbacks ?s1)) rs\<rparr>)"
  proof (rule Cons.IH)
    show "int (length (readings ?s1) + length rs) \<le> reading_storage_length ?s1"
      using Cons.prems(1) by (simp add: insert_reading_def)
    show "ascending (readings ?s1 @ rs)"
      using ascending_append_snoc[OF Cons.prems(2), of "convert pv (conversion_callbacks s) r"]
      by (simp add: insert_reading_def reading_time_convert)
    show "list_all (\<lambda>r. \<not> no_data r) rs" using Cons.prems(3) by simp
  qed
  with step show ?case by (simp add: insert_reading_def)
qed

lemma insert_evicting:
  assumes "\<not> increase_buffer s"
    and "reading_storage_length s = int C" and "1 \<le> C"
    and "length (readings s) \<le> C"
    and "ascending (readings s @ rs)"
    and "list_all (\<lambda>r. \<not> no_data r) rs"
  shows "insert_readings pv s rs
       = (Inr (), s\<lparr>readings := drop (length (readings s) + length rs - C)
                                  (readings s @ map (convert pv (conversion_callbacks s)) rs)\<rparr>)"
  using assms
proof (induction rs arbitrary: s)
  case Nil then show ?case by simp
next
  case (Cons r rs)
  let ?c = "convert pv (conversion_callbacks s) r"
  have nd: "\<not> no_data r" using Cons.prems(6) by simp
  have mono: "\<not> (0 < length (readings s) \<and> reading_time r \<le> reading_time (last (readings s)))"
    using ascending_last_less[OF Cons.prems(5)] by auto
  show ?case
  proof (cases "length (readings s) = C")
    case True
    then obtain old kept where ok: "readings s = old # kept"
      using Cons.prems(3) by (cases "readings s") auto
    let ?s1 = "insert_reading pv (s\<lparr>readings := kept\<rparr>) r"
    have step: "insert_readings pv s (r # rs) = insert_readings pv ?s1 rs"
      using nd mono True Cons.prems(1,2) ok by simp
    have asc: "ascending (kept @ r # rs)"
      using Cons.prems(5) ok by (simp add: ascending_def)
    have "insert_readings pv ?s1 rs
      = (Inr (), ?s1\<lparr>readings := drop (length (readings ?s1) + length rs - C)
                        (readings ?s1 @ map (convert pv (conversion_callbacks ?s1)) rs)\<rparr>)"
    proof (rule Cons.IH)
      show "ascending (readings ?s1 @ rs)"
        using ascending_append_snoc[OF asc, of ?c]
        by (simp add: insert_reading_def reading_time_convert)
    qed (use Cons.prems True ok in \<open>simp_all add: insert_reading_def\<close>)
    with step True ok show ?thesis by (simp add: insert_reading_def)
  next
    case False
    let ?s1 = "insert_reading pv s r"
    have step: "insert_readings pv s (r # rs) = insert_readings pv ?s1 rs"
      using nd mono False Cons.prems(2,4) by auto
    have "insert_readings pv ?s1 rs
      = (Inr (), ?s1\<lparr>readings := drop (length (readings ?s1) + length rs - C)
                        (readings ?s1 @ map (convert pv (conversion_callbacks ?s1)) rs)\<rparr>)"
    proof (rule Cons.IH)
      show "ascending (readings ?s1 @ rs)"
        using ascending_append_snoc[OF Cons.prems(5), of ?c]
        by (simp add: insert_reading_def reading_time_convert)
    qed (use Cons.prems False in \<open>simp_all add: insert_reading_def\<close>)
    with step show ?thesis by (simp add: insert_reading_def)
  qed
qed

text \<open>
  C4. Into an empty store of capacity \<open>C \<ge> 1\<close> with \<^verbatim>\<open>increase_buffer=False\<close>,
  \<open>C + k\<close> readings with strictly increasing times, none of them the no-data reading,
  are inserted one at a time. No call raises, the capacity is still \<open>C\<close>, and the store
  holds exactly \<open>C\<close> readings: the input without its first \<open>k\<close> readings, in the order
  of insertion (each as the conversion callbacks left it).
\<close>

theorem insert_beyond_capacity_keeps_latest:
  assumes "1 \<le> C" and "length rs = C + k"
    and "sorted_wrt (<) (map reading_time rs)"
    and "list_all (\<lambda>r. \<not> no_data r) rs"
  shows "insert_each pv (DataStore_init (int C) False cbs) rs
       = (Inr (), (DataStore_init (int C) False cbs)\<lparr>readings := map (convert pv cbs) (drop k rs)\<rparr>)
       \<and> length (map (convert pv cbs) (drop k rs)) = C"
proof -
  let ?init = "DataStore_init (int C) False cbs"
  have "insert_readings pv ?init rs
      = (Inr (), ?init\<lparr>readings := drop (length (readings ?init) + length rs - C)
                        (readings ?init @ map (convert pv (conversion_callbacks ?init)) rs)\<rparr>)"
    by (rule insert_evicting[where C = C])
       (use assms in \<open>simp_all add: DataStore_init_def ascending_def\<close>)
  then show ?thesis
    using assms(2) by (simp add: insert_each_eq DataStore_init_def drop_map)
qed

text \<open>
  The example of the specification: capacity 3, times 1 to 4; the store ends with the
  times 2, 3 and 4.
\<close>

theorem insert_beyond_capacity_keeps_latest_witness:
  "insert_each Py2 (DataStore_init 3 False [])
     [\<lparr>reading_time = 1, channels = [1], samples = [\<lparr>channel = 1, val = 10\<rparr>]\<rparr>,
      \<lparr>reading_time = 2, channels = [1], samples = [\<lparr>channel = 1, val = 20\<rparr>]\<rparr>,
      \<lparr>reading_time = 3, channels = [1], samples = [\<lparr>channel = 1, val = 30\<rparr>]\<rparr>,
      \<lparr>reading_time = 4, channels = [1], samples = [\<lparr>channel = 1, val = 40\<rparr>]\<rparr>]
   = (Inr (),
      \<lparr>reading_storage_length = 3, increase_buffer = False, conversion_callbacks = [],
       readings =
         [\<lparr>reading_time = 2, channels = [1], samples = [\<lparr>channel = 1, val = 20\<rparr>]\<rparr>,
          \<lparr>reading_time = 3, channels = [1], samples = [\<lparr>channel = 1, val = 30\<rparr>]\<rparr>,
          \<lparr>reading_time = 4, channels = [1], samples = [\<lparr>channel = 1, val = 40\<rparr>]\<rparr>]\<rparr>)"
proof -
  let ?rs = "[\<lparr>reading_time = 1, channels = [1], samples = [\<lparr>channel = 1, val = 10\<rparr>]\<rparr>,
      \<lparr>reading_time = 2, channels = [1], samples = [\<lparr>channel = 1, val = 20\<rparr>]\<rparr>,
      \<lparr>reading_time = 3, channels = [1], samples = [\<lparr>channel = 1, val = 30\<rparr>]\<rparr>,
      \<lparr>reading_time = 4, channels = [1], samples = [\<lparr>channel = 1, val = 40\<rparr>]\<rparr>]"
  have a: "1 \<le> (3::nat)" by simp
  have b: "length ?rs = 3 + 1" by simp
  have c: "sorted_wrt (<) (map reading_time ?rs)" by simp
  have d: "list_all (\<lambda>r. \<not> no_data r) ?rs" by (simp add: no_data_def)
  from insert_beyond_capacity_keeps_latest[OF a b c d, of Py2 "[]"]
  show ?thesis by (simp add: DataStore_init_def convert_def)
qed

subsection \<open>Range queries\<close>

lemma instance_with_readings_fits:
  assumes "int (length rs) \<le> reading_storage_length s" and "ascending rs"
    and "list_all (\<lambda>r. \<not> no_data r) rs"
  shows "instance_with_readings pv s rs
       = (Inr (), (DataStore_init (reading_storage_length s) False [])\<lparr>readings := rs\<rparr>)"
proof -
  let ?new = "DataStore_init (reading_storage_length s) False []"
  have "insert_readings pv ?new rs
      = (Inr (), ?new\<lparr>readings := readings ?new @ map (convert pv (conversion_callbacks ?new)) rs\<rparr>)"
    by (rule insert_fits) (use assms in \<open>simp_all add: DataStore_init_def\<close>)
  then show ?thesis
    by (simp add: instance_with_readings_def DataStore_init_def map_convert_no_callbacks)
qed

text \<open>
  C8, amended. The claim fails for stores that hold more readings than their capacity
  (a store constructed with a negative capacity and \<^verbatim>\<open>increase_buffer=True\<close>): the new
  store is filled through \<^verbatim>\<open>insert\<close> without \<^verbatim>\<open>increase_buffer\<close>, which raises or
  evicts. It also fails when a stored reading has become the no-data reading through a
  conversion callback: \<^verbatim>\<open>insert\<close> skips it in the copy. For every store whose readings
  are strictly ascending in time, number at most the capacity, and include no no-data
  reading (by \<open>reachable_plain_store\<close>, every store built from an empty store of
  capacity zero or more without callbacks), and for every timestamp \<open>t\<close> (equal to a
  stored time or not), both queries return a new store with the capacity of the
  original, no callbacks and
  \<^verbatim>\<open>increase_buffer=False\<close>; \<^verbatim>\<open>find_readings_after\<close> holds the readings with a time
  greater than \<open>t\<close>, \<^verbatim>\<open>find_readings_before\<close> those with a time of at most \<open>t\<close>, each in
  the original order, and the readings of the second followed by those of the first are
  the readings of the original store.
\<close>

theorem find_readings_after_before_partition:
  assumes "sorted_wrt (<) (map reading_time (readings s))"
    and "int (length (readings s)) \<le> reading_storage_length s"
    and "list_all (\<lambda>r. \<not> no_data r) (readings s)"
  shows "find_readings_after pv s t
           = (Inr (), (DataStore_init (reading_storage_length s) False [])
                        \<lparr>readings := filter (\<lambda>r. t < reading_time r) (readings s)\<rparr>)
       \<and> find_readings_before pv s t
           = (Inr (), (DataStore_init (reading_storage_length s) False [])
                        \<lparr>readings := filter (\<lambda>r. reading_time r \<le> t) (readings s)\<rparr>)
       \<and> readings (snd (find_readings_before pv s t)) @ readings (snd (find_readings_after pv s t))
           = readings s"
proof -
  have asc: "ascending (readings s)" using assms(1) by (simp add: ascending_def)
  have len: "int (length (filter P (readings s))) \<le> reading_storage_length s" for P
    using assms(2) length_filter_le[of P "readings s"] by linarith
  have nd: "list_all (\<lambda>r. \<not> no_data r) (filter P (readings s))" for P
    using assms(3) by (simp add: list_all_iff)
  have a: "find_readings_after pv s t
           = (Inr (), (DataStore_init (reading_storage_length s) False [])
                        \<lparr>readings := filter (\<lambda>r. t < reading_time r) (readings s)\<rparr>)"
    unfolding find_readings_after_def
    by (rule instance_with_readings_fits[OF len ascending_filter[OF asc] nd])
  have b: "find_readings_before pv s t
           = (Inr (), (DataStore_init (reading_storage_length s) False [])
                        \<lparr>readings := filter (\<lambda>r. reading_time r \<le> t) (readings s)\<rparr>)"
    unfolding find_readings_before_def
    by (rule instance_with_readings_fits[OF len ascending_filter[OF asc] nd])
  show ?thesis
    using ascending_split[OF asc, of t] by (simp add: a b)
qed

theorem find_readings_after_before_partition_witness:
  "find_readings_after Py2
     \<lparr>reading_storage_length = 3, increase_buffer = True, conversion_callbacks = [],
      readings =
        [\<lparr>reading_time = 2, channels = [1], samples = [\<lparr>channel = 1, val = 20\<rparr>]\<rparr>,
         \<lparr>reading_time = 3, channels = [1], samples = [\<lparr>channel = 1, val = 30\<rparr>]\<rparr>,
         \<lparr>reading_time = 4, channels = [1], samples = [\<lparr>channel = 1, val = 40\<rparr>]\<rparr>]\<rparr> 3
   = (Inr (),
      \<lparr>reading_storage_length = 3, increase_buffer = False, conversion_callbacks = [],
       readings = [\<lparr>reading_time = 4, channels = [1], samples = [\<lparr>channel = 1, val = 40\<rparr>]\<rparr>]\<rparr>)
   \<and> find_readings_before Py2
     \<lparr>reading_storage_length = 3, increase_buffer = True, conversion_callbacks = [],
      readings =
        [\<lparr>reading_time = 2, channels = [1], samples = [\<lparr>channel = 1, val = 20\<rparr>]\<rparr>,
         \<lparr>reading_time = 3, channels = [1], samples = [\<lparr>channel = 1, val = 30\<rparr>]\<rparr>,
         \<lparr>reading_time = 4, channels = [1], samples = [\<lparr>channel = 1, val = 40\<rparr>]\<rparr>]\<rparr> 3
   = (Inr (),
      \<lparr>reading_storage_length = 3, increase_buffer = False, conversion_callbacks = [],
       readings =
        [\<lparr>reading_time = 2, channels = [1], samples = [\<lparr>channel = 1, val = 20\<rparr>]\<rparr>,
         \<lparr>reading_time = 3, channels = [1], samples = [\<lparr>channel = 1, val = 30\<rparr>]\<rparr>]\<rparr>)"
proof -
  let ?st = "\<lparr>reading_storage_length = 3, increase_buffer = True, conversion_callbacks = [],
      readings =
        [\<lparr>reading_time = 2, channels = [1], samples = [\<lparr>channel = 1, val = 20\<rparr>]\<rparr>,
         \<lparr>reading_time = 3, channels = [1], samples = [\<lparr>channel = 1, val = 30\<rparr>]\<rparr>,
         \<lparr>reading_time = 4, channels = [1], samples = [\<lparr>channel = 1, val = 40\<rparr>]\<rparr>]\<rparr>"
  have a: "sorted_wrt (<) (map reading_time (readings ?st))" by simp
  have b: "int (length (readings ?st)) \<le> reading_storage_length ?st" by simp
  have c: "list_all (\<lambda>r. \<not> no_data r) (readings ?st)" by (simp add: no_data_def)
  from find_readings_after_before_partition[OF a b c, of Py2 3]
  show ?thesis by (simp add: DataStore_init_def)
qed

text \<open>
  The claim as stated fails for the store made by \<^verbatim>\<open>DataStore(-1, True)\<close> and one
  insertion: it holds one reading with a capacity of zero, and the query raises
  \<^verbatim>\<open>IndexError\<close>.
\<close>

theorem find_readings_after_counterexample:
  "readings (snd (insert_readings Py2 (DataStore_init (- 1) True [])
       [\<lparr>reading_time = 1, channels = [1], samples = [\<lparr>channel = 1, val = 2\<rparr>]\<rparr>]))
     = [\<lparr>reading_time = 1, channels = [1], samples = [\<lparr>channel = 1, val = 2\<rparr>]\<rparr>]
   \<and> find_readings_after Py2
       (snd (insert_readings Py2 (DataStore_init (- 1) True [])
         [\<lparr>reading_time = 1, channels = [1], samples = [\<lparr>channel = 1, val = 2\<rparr>]\<rparr>])) 0
     = (Inl IndexError, DataStore_init 0 False [])"
  by (simp add: DataStore_init_def no_data_def insert_reading_def convert_def
      find_readings_after_def instance_with_readings_def)

text \<open>
  Under Python 2 a callback can turn a stored reading into the no-data reading; the
  query then loses it.
\<close>

lemma find_readings_before_skips_converted_zero:
  "readings (snd (insert_readings Py2 (DataStore_init 2 False [map (\<lambda>v. v - 1)])
       [\<lparr>reading_time = 0, channels = [1], samples = [\<lparr>channel = 1, val = 1\<rparr>]\<rparr>]))
     = [\<lparr>reading_time = 0, channels = [1], samples = [\<lparr>channel = 1, val = 0\<rparr>]\<rparr>]
   \<and> find_readings_before Py2
       (snd (insert_readings Py2 (DataStore_init 2 False [map (\<lambda>v. v - 1)])
         [\<lparr>reading_time = 0, channels = [1], samples = [\<lparr>channel = 1, val = 1\<rparr>]\<rparr>])) 5
     = (Inr (), DataStore_init 2 False [])"
  by (simp add: DataStore_init_def no_data_def insert_reading_def convert_def apply_function_def
      find_readings_before_def instance_with_readings_def)

subsection \<open>Round trip through the mappings\<close>

lemma build_samples_val:
  "build_samples iv cs vs = Inr ss \<Longrightarrow> length cs = length vs \<Longrightarrow> map val ss = vs"
  by (induction iv cs vs arbitrary: ss rule: build_samples.induct)
     (auto simp: Sample_init_def split: if_splits sum.splits)

lemma Reading_init_again:
  assumes "Reading_init iv t cs vs = Inr r"
  shows "Reading_init iv (reading_time r) (channels r) (map val (samples r)) = Inr r"
proof -
  from assms have len: "length cs = length vs" and small: "\<not> 256 < length cs"
    by (auto simp: Reading_init_def len_is_not_def split: if_splits)
  from assms obtain ss where ss: "build_samples iv cs vs = Inr ss"
    and r: "r = \<lparr>reading_time = t, channels = cs, samples = ss\<rparr>"
    by (auto simp: Reading_init_def split: if_splits sum.splits)
  from build_samples_val[OF ss len] have "map val ss = vs" .
  with assms r show ?thesis by simp
qed

lemma row_values_dict_repr: "row_values (dict_repr r) = map val (samples r)"
  by (simp add: row_values_def dict_repr_def sample_dict_repr_def comp_def)

lemma rows_to_readings_dict_repr:
  "\<forall>r \<in> set rs. \<exists>t cs vs. Reading_init iv t cs vs = Inr r \<Longrightarrow>
   rows_to_readings iv (map dict_repr rs) = Inr rs"
proof (induction rs)
  case Nil show ?case by simp
next
  case (Cons r rs)
  then obtain t cs vs where "Reading_init iv t cs vs = Inr r" by auto
  from Reading_init_again[OF this]
  have "Reading_init iv (d_reading_time (dict_repr r)) (d_channels (dict_repr r)) (row_values (dict_repr r)) = Inr r"
    by (simp add: row_values_dict_repr) (simp add: dict_repr_def)
  with Cons show ?case by simp
qed

text \<open>
  C9. For every store built by \<^verbatim>\<open>insert\<close> and \<^verbatim>\<open>insert_from_dict\<close> calls from an empty
  store without conversion callbacks, whose readings were made by the constructor of
  \<^verbatim>\<open>Reading\<close>: the list of the \<^verbatim>\<open>dict_repr\<close> of its readings, given to
  \<^verbatim>\<open>instance_from_dict\<close> without callbacks, yields without an error a store whose readings
  are the readings of the original, equal in number, times, channels and values; its
  capacity is their number.
\<close>

theorem dict_repr_instance_from_dict_roundtrip:
  assumes "reachable pv iv (DataStore_init c ib0 []) s"
    and "\<forall>r \<in> set (readings s). \<exists>t cs vs. Reading_init iv t cs vs = Inr r"
  shows "instance_from_dict pv iv (map dict_repr (readings s)) ib []
       = (Inr (), (DataStore_init (int (length (readings s))) ib [])\<lparr>readings := readings s\<rparr>)"
proof -
  let ?new = "DataStore_init (int (length (readings s))) ib []"
  have "insert_readings pv ?new (readings s)
      = (Inr (), ?new\<lparr>readings := readings ?new
                        @ map (convert pv (conversion_callbacks ?new)) (readings s)\<rparr>)"
  proof (rule insert_fits)
    show "ascending (readings ?new @ readings s)"
      using reachable_ascending[OF assms(1)] by (simp add: DataStore_init_def)
    show "list_all (\<lambda>r. \<not> no_data r) (readings s)"
      using assms(1) by (rule reachable_keeps_data)
  qed (simp add: DataStore_init_def)
  then show ?thesis
    by (simp add: instance_from_dict_def insert_from_dict_def
        rows_to_readings_dict_repr[OF assms(2)] DataStore_init_def map_convert_no_callbacks)
qed

theorem dict_repr_instance_from_dict_roundtrip_witness:
  "instance_from_dict Py2 (\<lambda>c. 1 \<le> c \<and> c \<le> 16)
     (map dict_repr (readings (snd (insert_readings Py2 (DataStore_init 5 True [])
        [\<lparr>reading_time = 0, channels = [1, 2],
          samples = [\<lparr>channel = 1, val = 0\<rparr>, \<lparr>channel = 2, val = 5 / 2\<rparr>]\<rparr>,
         \<lparr>reading_time = 7, channels = [1, 2],
          samples = [\<lparr>channel = 1, val = 0\<rparr>, \<lparr>channel = 2, val = 0\<rparr>]\<rparr>])))) False []
   = (Inr (),
      \<lparr>reading_storage_length = 2, increase_buffer = False, conversion_callbacks = [],
       readings =
        [\<lparr>reading_time = 0, channels = [1, 2],
          samples = [\<lparr>channel = 1, val = 0\<rparr>, \<lparr>channel = 2, val = 5 / 2\<rparr>]\<rparr>,
         \<lparr>reading_time = 7, channels = [1, 2],
          samples = [\<lparr>channel = 1, val = 0\<rparr>, \<lparr>channel = 2, val = 0\<rparr>]\<rparr>]\<rparr>)"
proof -
  let ?iv = "\<lambda>c::int. 1 \<le> c \<and> c \<le> 16"
  let ?r1 = "\<lparr>reading_time = 0, channels = [1, 2],
          samples = [\<lparr>channel = 1, val = 0\<rparr>, \<lparr>channel = 2, val = 5 / 2\<rparr>]\<rparr>"
  let ?r2 = "\<lparr>reading_time = 7, channels = [1, 2],
          samples = [\<lparr>channel = 1, val = 0\<rparr>, \<lparr>channel = 2, val = 0\<rparr>]\<rparr>"
  let ?init = "DataStore_init 5 True []"
  let ?st = "snd (insert_readings Py2 ?init [?r1, ?r2])"
  have a: "reachable Py2 ?iv ?init ?st"
    by (rule reachable.by_insert[OF reachable.start])
  have rs: "readings ?st = [?r1, ?r2]"
    by (simp add: DataStore_init_def no_data_def insert_reading_def convert_def)
  have r1: "Reading_init ?iv 0 [1, 2] [0, 5 / 2] = Inr ?r1"
    by (simp add: Reading_init_def len_is_not_def Sample_init_def)
  have r2: "Reading_init ?iv 7 [1, 2] [0, 0] = Inr ?r2"
    by (simp add: Reading_init_def len_is_not_def Sample_init_def)
  have b: "\<forall>r \<in> set (readings ?st). \<exists>t cs vs. Reading_init ?iv t cs vs = Inr r"
    unfolding rs
  proof
    fix r assume "r \<in> set [?r1, ?r2]"
    then have "r = ?r1 \<or> r = ?r2" by simp
    then show "\<exists>t cs vs. Reading_init ?iv t cs vs = Inr r"
      using r1 r2 by blast
  qed
  have c: "instance_from_dict Py2 ?iv (map dict_repr (readings ?st)) False []
       = (Inr (), (DataStore_init (int (length (readings ?st))) False [])\<lparr>readings := readings ?st\<rparr>)"
    by (rule dict_repr_instance_from_dict_roundtrip[OF a b])
  show ?thesis
    by (rule trans[OF c]) (simp only: rs, simp add: DataStore_init_def)
qed

subsection \<open>Serialisation with a bound on the length\<close>

lemma json_dumps_length: "2 \<le> length (json_dumps enc ds)"
  by (simp add: json_dumps_def)

lemma trim_loop_stops:
  "len_gt pv (length je) mb = Inr False \<Longrightarrow> trim_loop pv enc jr mb je = Some (Inr je)"
  by (subst trim_loop.simps) simp

lemma trim_loop_raises:
  "len_gt pv (length je) mb = Inl e \<Longrightarrow> trim_loop pv enc jr mb je = Some (Inl e)"
  by (subst trim_loop.simps) simp

lemma trim_loop_again:
  "len_gt pv (length je) mb = Inr True \<Longrightarrow>
   trim_loop pv enc jr mb je = trim_loop pv enc jr mb (json_dumps enc (butlast jr))"
  by (subst trim_loop.simps) simp

text \<open>
  If the loop returns, then the text it re-encodes on every round fits or the first text
  did: the loop has only one text to offer.
\<close>

lemma trim_loop_result:
  assumes "trim_loop pv enc jr mb je = Some y"
  shows "len_gt pv (length (json_dumps enc (butlast jr))) mb = Inr True
         \<longrightarrow> len_gt pv (length je) mb \<noteq> Inr True"
proof (rule trim_loop.raw_induct
    [where P = "\<lambda>pv enc jr mb je y.
        len_gt pv (length (json_dumps enc (butlast jr))) mb = Inr True
        \<longrightarrow> len_gt pv (length je) mb \<noteq> Inr True", OF _ assms])
  fix loop :: "pyver \<Rightarrow> (reading_dict \<Rightarrow> string) \<Rightarrow> reading_dict list \<Rightarrow> int option \<Rightarrow> string
     \<Rightarrow> (error + string) option"
  fix pv enc jr mb je y
  assume IH: "\<And>pv enc jr mb je y. loop pv enc jr mb je = Some y \<Longrightarrow>
        len_gt pv (length (json_dumps enc (butlast jr))) mb = Inr True
        \<longrightarrow> len_gt pv (length je) mb \<noteq> Inr True"
  assume body: "(case len_gt pv (length je) mb of
        Inl e \<Rightarrow> Some (Inl e)
      | Inr b \<Rightarrow>
          (if b then loop pv enc jr mb (json_dumps enc (butlast jr))
           else Some (Inr je))) = Some y"
  show "len_gt pv (length (json_dumps enc (butlast jr))) mb = Inr True
        \<longrightarrow> len_gt pv (length je) mb \<noteq> Inr True"
  proof (cases "len_gt pv (length je) mb")
    case (Inl e) then show ?thesis by simp
  next
    case (Inr b)
    show ?thesis
    proof (cases b)
      case True
      with Inr body have "loop pv enc jr mb (json_dumps enc (butlast jr)) = Some y" by simp
      from IH[OF this] show ?thesis by blast
    next
      case False with Inr show ?thesis by simp
    qed
  qed
qed

lemma trim_loop_diverges:
  assumes "len_gt pv (length (json_dumps enc (butlast jr))) mb = Inr True"
    and "len_gt pv (length je) mb = Inr True"
  shows "trim_loop pv enc jr mb je = None"
proof (cases "trim_loop pv enc jr mb je")
  case None then show ?thesis .
next
  case (Some y)
  from trim_loop_result[OF Some] assms show ?thesis by simp
qed

text \<open>
  What \<^verbatim>\<open>json_repr\<close> does with a bound and trimming: the whole list if it fits, else
  the list without its last reading if that fits, else nothing, for ever.
\<close>

lemma json_repr_trim:
  "json_repr pv enc s (Some m) True =
     (if int (length (json_dumps enc (map dict_repr (readings s)))) \<le> m
      then Some (Inr (json_dumps enc (map dict_repr (readings s))))
      else if int (length (json_dumps enc (butlast (map dict_repr (readings s))))) \<le> m
      then Some (Inr (json_dumps enc (butlast (map dict_repr (readings s)))))
      else None)"
proof -
  let ?jr = "map dict_repr (readings s)"
  let ?all = "json_dumps enc ?jr"
  let ?cut = "json_dumps enc (butlast ?jr)"
  consider (fits) "int (length ?all) \<le> m"
    | (cut) "m < int (length ?all)" "int (length ?cut) \<le> m"
    | (never) "m < int (length ?all)" "m < int (length ?cut)"
    by linarith
  then show ?thesis
  proof cases
    case fits then show ?thesis by (simp add: json_repr_def)
  next
    case cut
    then have "trim_loop pv enc ?jr (Some m) ?all = Some (Inr ?cut)"
      by (simp add: trim_loop_again trim_loop_stops)
    with cut show ?thesis by (simp add: json_repr_def)
  next
    case never
    then have "trim_loop pv enc ?jr (Some m) ?all = None"
      by (intro trim_loop_diverges) simp_all
    with never show ?thesis by (simp add: json_repr_def)
  qed
qed

lemma json_reading_length: "2 < length (json_reading fl d)"
  by (simp add: json_reading_def)

text \<open>
  C1, a defect of the code. The source says "encode subsets of list until it fits" and
  "remove last row", but the loop encodes \<^verbatim>\<open>json_readings[:-1]\<close> again on every round
  and never shortens \<open>json_readings\<close>. For a store of two readings and \<open>max_bytes = 2\<close>,
  smaller than the text of one reading and enough for the empty array, the claim says
  the call returns the empty array; the call does not return, under either interpreter.
\<close>

theorem json_repr_trim_never_shrinks:
  "json_repr Py2 (json_reading (\<lambda>v. ''0.0''))
     \<lparr>reading_storage_length = 2, increase_buffer = False, conversion_callbacks = [],
      readings = [\<lparr>reading_time = 1, channels = [1], samples = [\<lparr>channel = 1, val = 0\<rparr>]\<rparr>,
                  \<lparr>reading_time = 2, channels = [1], samples = [\<lparr>channel = 1, val = 0\<rparr>]\<rparr>]\<rparr>
     (Some 2) True = None
   \<and> json_repr Py3 (json_reading (\<lambda>v. ''0.0''))
     \<lparr>reading_storage_length = 2, increase_buffer = False, conversion_callbacks = [],
      readings = [\<lparr>reading_time = 1, channels = [1], samples = [\<lparr>channel = 1, val = 0\<rparr>]\<rparr>,
                  \<lparr>reading_time = 2, channels = [1], samples = [\<lparr>channel = 1, val = 0\<rparr>]\<rparr>]\<rparr>
     (Some 2) True = None"
  by (simp add: json_repr_trim json_dumps_def json_reading_def)

lemma json_repr_None:
  "json_repr pv enc s None trim =
     (case pv of
        Py3 \<Rightarrow> Some (Inl TypeError)
      | Py2 \<Rightarrow> (if trim then None else Some (Inl PayloadTooLargeError)))"
proof (cases pv)
  case Py3 then show ?thesis by (simp add: json_repr_def)
next
  case Py2
  have "trim_loop Py2 enc jr None je = None" for jr je
    by (rule trim_loop_diverges) simp_all
  with Py2 show ?thesis by (simp add: json_repr_def)
qed

text \<open>
  C7, amended. Without \<open>max_bytes\<close> the size check is never skipped and no text is
  returned. The call fails fast, for every store, under Python 3, where the first
  comparison raises \<^verbatim>\<open>TypeError\<close> with or without trimming, and under Python 2, for which
  the module is written and where \<^verbatim>\<open>None\<close> is below every length, when trimming is
  disabled: it raises "Data is longer than maximum bytes and trim is not enabled".
\<close>

theorem json_repr_without_max_bytes:
  "json_repr Py3 enc s None trim = Some (Inl TypeError)
   \<and> json_repr Py2 enc s None False = Some (Inl PayloadTooLargeError)"
  by (simp add: json_repr_None)

text \<open>
  The claim as stated fails under Python 2 with trimming enabled, the default: for an
  empty store the condition of the loop is true on every round, no error is raised and
  the call does not return.
\<close>

theorem json_repr_without_max_bytes_counterexample:
  "json_repr Py2 (json_reading (\<lambda>v. ''0.0'')) (DataStore_init 3 False []) None True = None"
  by (simp add: json_repr_None)

end
